theory Spec2Isabelle
  imports Complex_Main "HOL-Library.Multiset" "HOL-Library.Sublist"
begin

section \<open>Data model of the video composer\<close>

text \<open>
  Times are Python floats (or ints read from JSON); they are modelled as exact reals, so
  rounding is not part of the model. Every comparison and every \<open>max\<close>/\<open>min\<close> of the
  source is kept as written.
\<close>

datatype content_type = ImageType | VideoType | BackgroundType

datatype py_error =
    KeyError string
  | TranscriptNotFound
  | NoAudioFile
  | NoVisualContent
  | NoSegmentsTranscribed
  | EncoderFailure string

text \<open>
  A raw image or video record of the manifest: a JSON object. \<open>image['path']\<close> is read
  without a default (a missing key raises \<open>KeyError\<close>), the other keys with \<open>.get\<close>.
\<close>

record raw_record =
  r_path :: "string option"
  r_timestamp :: "real option"
  r_relevance_score :: "real option"
  r_description :: "string option"

text \<open>The manifest: \<open>visual_content.get('images', [])\<close> tolerates a missing key.\<close>

record visual_content =
  images :: "raw_record list option"
  videos :: "raw_record list option"

text \<open>An element of \<open>all_content\<close> in \<open>create_timeline\<close>.\<close>

record content =
  c_type :: content_type
  c_path :: string
  timestamp :: real
  c_relevance_score :: real
  c_description :: string
  c_duration :: real

text \<open>An element of the timeline; \<open>path\<close> is \<open>None\<close> for the background filler.\<close>

record segment =
  seg_type :: content_type
  path :: "string option"
  start_time :: real
  end_time :: real
  duration :: real
  description :: string
  relevance_score :: real

section \<open>Normalisation of the raw records (create_timeline, lines 69-91)\<close>

definition default_image_duration :: real where
  "default_image_duration = 5"

definition get_or :: "'a option \<Rightarrow> 'a \<Rightarrow> 'a" where
  "get_or v d = (case v of None \<Rightarrow> d | Some x \<Rightarrow> x)"

definition image_content :: "raw_record \<Rightarrow> py_error + content" where
  "image_content r =
     (case r_path r of
        None \<Rightarrow> Inl (KeyError ''path'')
      | Some p \<Rightarrow> Inr \<lparr>c_type = ImageType, c_path = p,
                       timestamp = get_or (r_timestamp r) 0,
                       c_relevance_score = get_or (r_relevance_score r) 0.5,
                       c_description = get_or (r_description r) [],
                       c_duration = default_image_duration\<rparr>)"

definition video_content :: "raw_record \<Rightarrow> py_error + content" where
  "video_content r =
     (case r_path r of
        None \<Rightarrow> Inl (KeyError ''path'')
      | Some p \<Rightarrow> Inr \<lparr>c_type = VideoType, c_path = p,
                       timestamp = get_or (r_timestamp r) 0,
                       c_relevance_score = get_or (r_relevance_score r) 0.8,
                       c_description = get_or (r_description r) [],
                       c_duration = 3\<rparr>)"

text \<open>
  The two \<open>for\<close> loops appending to \<open>all_content\<close>: the first record that raises ends the
  call with its error.
\<close>

fun append_all :: "(raw_record \<Rightarrow> py_error + content) \<Rightarrow> raw_record list \<Rightarrow> content list
                    \<Rightarrow> py_error + content list" where
  "append_all f [] acc = Inr acc"
| "append_all f (r # rs) acc =
     (case f r of Inl e \<Rightarrow> Inl e | Inr c \<Rightarrow> append_all f rs (acc @ [c]))"

definition all_content :: "visual_content \<Rightarrow> py_error + content list" where
  "all_content vc =
     (case append_all image_content (get_or (images vc) []) [] of
        Inl e \<Rightarrow> Inl e
      | Inr acc \<Rightarrow> append_all video_content (get_or (videos vc) []) acc)"

section \<open>Timeline construction (create_timeline, lines 94-117)\<close>

definition make_segment :: "content \<Rightarrow> real \<Rightarrow> real \<Rightarrow> segment" where
  "make_segment c s e =
     \<lparr>seg_type = c_type c, path = Some (c_path c), start_time = s, end_time = e,
      duration = e - s, description = c_description c,
      relevance_score = c_relevance_score c\<rparr>"

text \<open>The loop over the sorted contents, with its two variables \<open>timeline\<close> and \<open>current_time\<close>.\<close>

fun timeline_loop :: "real \<Rightarrow> content list \<Rightarrow> segment list \<Rightarrow> real \<Rightarrow> segment list" where
  "timeline_loop total_duration [] timeline current_time = timeline"
| "timeline_loop total_duration (c # cs) timeline current_time =
     (let start = max (timestamp c) current_time;
          end' = min (start + c_duration c) total_duration
      in if end' > start
         then timeline_loop total_duration cs (timeline @ [make_segment c start end']) end'
         else timeline_loop total_duration cs timeline current_time)"

section \<open>Gap filling (fill_timeline_gaps, lines 119-165)\<close>

definition extend_last :: "segment list \<Rightarrow> real \<Rightarrow> real \<Rightarrow> segment" where
  "extend_last filled s e = (last filled)\<lparr>start_time := s, end_time := e, duration := e - s\<rparr>"

definition background_segment :: "real \<Rightarrow> real \<Rightarrow> segment" where
  "background_segment s e =
     \<lparr>seg_type = BackgroundType, path = None, start_time = s, end_time = e,
      duration = e - s, description = ''Background'', relevance_score = 0.1\<rparr>"

fun fill_loop :: "segment list \<Rightarrow> segment list \<Rightarrow> real \<Rightarrow> segment list \<times> real" where
  "fill_loop [] filled current_time = (filled, current_time)"
| "fill_loop (seg # segs) filled current_time =
     (let filled1 =
            (if start_time seg > current_time
             then (if filled \<noteq> []
                   then filled @ [extend_last filled current_time (start_time seg)]
                   else filled @ [background_segment current_time (start_time seg)])
             else filled)
      in fill_loop segs (filled1 @ [seg]) (end_time seg))"

definition fill_timeline_gaps :: "segment list \<Rightarrow> real \<Rightarrow> segment list" where
  "fill_timeline_gaps timeline total_duration =
     (if timeline = [] then timeline
      else case fill_loop timeline [] 0 of
             (filled, current_time) \<Rightarrow>
               if current_time < total_duration
               then (if filled \<noteq> []
                     then filled @ [extend_last filled current_time total_duration]
                     else filled)
               else filled)"

text \<open>
  Lines 94-115 of \<open>create_timeline\<close>: the stable sort by timestamp, the assignment loop and
  the gap-filling pass, on the normalised contents.
\<close>

definition build_timeline :: "content list \<Rightarrow> real \<Rightarrow> segment list" where
  "build_timeline contents total_duration =
     fill_timeline_gaps
       (timeline_loop total_duration (sort_key timestamp contents) [] 0) total_duration"

text \<open>
  \<open>create_timeline\<close>; the second argument is the result of looking \<open>total_duration\<close> up in
  the transcript, \<open>transcript.get('total_duration', 0)\<close>.
\<close>

definition create_timeline :: "visual_content \<Rightarrow> real option \<Rightarrow> py_error + segment list" where
  "create_timeline vc transcript_total =
     (let total_duration = get_or transcript_total 0
      in case all_content vc of
           Inl e \<Rightarrow> Inl e
         | Inr contents \<Rightarrow> Inr (build_timeline contents total_duration))"

section \<open>The composition pipeline up to the timeline (compose_video, lines 291-348)\<close>

text \<open>
  The part of the job directory that \<open>compose_video\<close> reads. A file that does not exist
  is \<open>None\<close>. The transcript file is represented by what \<open>create_timeline\<close> reads from it,
  the result of looking up \<open>total_duration\<close>. \<open>audio_files\<close> lists, in directory order, the
  names that end in one of the audio extensions.
\<close>

record job_dir =
  transcript_file :: "real option option"
  manifest_file :: "visual_content option"
  audio_files :: "string list"

datatype event =
    StatusUpdate string nat
  | TimelineCreated
  | EncoderInvoked

record composition_info =
  file_size :: nat
  timeline_segments :: nat
  info_total_duration :: real

definition load_transcript :: "job_dir \<Rightarrow> py_error + real option" where
  "load_transcript job =
     (case transcript_file job of None \<Rightarrow> Inl TranscriptNotFound | Some t \<Rightarrow> Inr t)"

definition load_visual_content :: "job_dir \<Rightarrow> visual_content" where
  "load_visual_content job =
     (case manifest_file job of
        None \<Rightarrow> \<lparr>images = Some [], videos = Some []\<rparr>
      | Some m \<Rightarrow> m)"

definition get_audio_file :: "job_dir \<Rightarrow> py_error + string" where
  "get_audio_file job =
     (case audio_files job of [] \<Rightarrow> Inl NoAudioFile | f # _ \<Rightarrow> Inr f)"

text \<open>Python's \<open>not visual_content.get(key)\<close>: a missing key and an empty list are both falsy.\<close>

definition falsy :: "'a list option \<Rightarrow> bool" where
  "falsy v = (case v of None \<Rightarrow> True | Some xs \<Rightarrow> xs = [])"

text \<open>
  The body of the \<open>try\<close> block. Whatever follows the timeline (\<open>prepare_video_segments\<close>,
  \<open>concatenate_videos\<close>, \<open>add_audio_to_video\<close> and the size of the output file) runs the
  external encoder and is the parameter \<open>render\<close>. The log records the status updates, the
  call of \<open>create_timeline\<close> and the entry into the rendering stages.
\<close>

definition compose_body ::
  "(segment list \<Rightarrow> string \<Rightarrow> py_error + nat) \<Rightarrow> job_dir
     \<Rightarrow> event list \<times> (py_error + composition_info)" where
  "compose_body render job =
     (let log0 = [StatusUpdate ''composing'' 95] in
      case load_transcript job of
        Inl e \<Rightarrow> (log0, Inl e)
      | Inr transcript \<Rightarrow>
          (let visual = load_visual_content job in
           case get_audio_file job of
             Inl e \<Rightarrow> (log0, Inl e)
           | Inr audio_file \<Rightarrow>
               (if falsy (images visual) \<and> falsy (videos visual)
                then (log0, Inl NoVisualContent)
                else
                  (let log1 = log0 @ [StatusUpdate ''composing'' 96, TimelineCreated] in
                   case create_timeline visual transcript of
                     Inl e \<Rightarrow> (log1, Inl e)
                   | Inr timeline \<Rightarrow>
                       (let log2 = log1 @ [StatusUpdate ''composing'' 97, EncoderInvoked] in
                        case render timeline audio_file of
                          Inl e \<Rightarrow> (log2, Inl e)
                        | Inr output_size \<Rightarrow>
                            (log2 @ [StatusUpdate ''completed'' 100],
                             Inr \<lparr>file_size = output_size,
                                  timeline_segments = length timeline,
                                  info_total_duration = get_or transcript 0\<rparr>))))))"

text \<open>The \<open>except\<close> clause: the status becomes \<open>failed\<close> and the exception is raised again.\<close>

definition compose_video ::
  "(segment list \<Rightarrow> string \<Rightarrow> py_error + nat) \<Rightarrow> job_dir
     \<Rightarrow> event list \<times> (py_error + composition_info)" where
  "compose_video render job =
     (case compose_body render job of
        (evs, Inl e) \<Rightarrow> (evs @ [StatusUpdate ''failed'' 0], Inl e)
      | (evs, Inr info) \<Rightarrow> (evs, Inr info))"

section \<open>The transcript merger (audio_processor, lines 106-184)\<close>

record transcript_segment =
  seg_start :: real
  seg_end :: real
  seg_text :: string

text \<open>What the transcription service returns for one audio chunk.\<close>

record whisper_response =
  w_text :: string
  w_language :: string
  w_duration :: real
  w_segments :: "transcript_segment list"

record segment_transcript =
  segment_index :: int
  t_text :: string
  language :: string
  t_duration :: real
  segments :: "transcript_segment list"

record merged_transcript =
  total_duration :: real
  m_language :: string
  full_text :: string
  m_segments :: "transcript_segment list"

definition transcribe_segment :: "whisper_response \<Rightarrow> int \<Rightarrow> segment_transcript" where
  "transcribe_segment w i =
     \<lparr>segment_index = i, t_text = w_text w, language = w_language w,
      t_duration = w_duration w,
      segments = map (\<lambda>s. \<lparr>seg_start = seg_start s, seg_end = seg_end s,
                              seg_text = seg_text s\<rparr>) (w_segments w)\<rparr>"

text \<open>
  \<open>transcribe_all_segments\<close>: one outcome of the service per segment file, \<open>None\<close> when the
  call raised; a failed segment is skipped and the loop continues.
\<close>

fun transcribe_loop :: "int \<Rightarrow> whisper_response option list \<Rightarrow> segment_transcript list
                         \<Rightarrow> segment_transcript list" where
  "transcribe_loop i [] transcripts = transcripts"
| "transcribe_loop i (None # rest) transcripts = transcribe_loop (i + 1) rest transcripts"
| "transcribe_loop i (Some w # rest) transcripts =
     transcribe_loop (i + 1) rest (transcripts @ [transcribe_segment w i])"

definition transcribe_all_segments :: "whisper_response option list \<Rightarrow> segment_transcript list" where
  "transcribe_all_segments outcomes = transcribe_loop 0 outcomes []"

definition merged_segment :: "int \<Rightarrow> transcript_segment \<Rightarrow> transcript_segment" where
  "merged_segment base_time s =
     \<lparr>seg_start = real_of_int base_time + seg_start s,
      seg_end = real_of_int base_time + seg_end s,
      seg_text = seg_text s\<rparr>"

fun add_segments :: "int \<Rightarrow> transcript_segment list \<Rightarrow> transcript_segment list
                      \<Rightarrow> transcript_segment list" where
  "add_segments base_time [] acc = acc"
| "add_segments base_time (s # ss) acc =
     add_segments base_time ss (acc @ [merged_segment base_time s])"

definition merge_step :: "int \<Rightarrow> merged_transcript \<Rightarrow> segment_transcript \<Rightarrow> merged_transcript" where
  "merge_step segment_duration m t =
     (let base_time = segment_index t * segment_duration;
          text1 = (if full_text m \<noteq> [] then full_text m @ '' '' else full_text m)
      in \<lparr>total_duration = max (total_duration m) (real_of_int base_time + t_duration t),
          m_language = m_language m,
          full_text = text1 @ t_text t,
          m_segments = add_segments base_time (segments t) (m_segments m)\<rparr>)"

fun merge_loop :: "int \<Rightarrow> segment_transcript list \<Rightarrow> merged_transcript \<Rightarrow> merged_transcript" where
  "merge_loop segment_duration [] m = m"
| "merge_loop segment_duration (t # ts) m =
     merge_loop segment_duration ts (merge_step segment_duration m t)"

definition merge_transcripts :: "segment_transcript list \<Rightarrow> int \<Rightarrow> merged_transcript" where
  "merge_transcripts transcripts segment_duration =
     merge_loop segment_duration transcripts
       \<lparr>total_duration = 0,
        m_language = (case transcripts of [] \<Rightarrow> ''en'' | t # _ \<Rightarrow> language t),
        full_text = [],
        m_segments = []\<rparr>"

text \<open>
  \<open>process_audio\<close> from step 2 on, given the outcomes of the transcription service: the
  guard on an empty list of transcripts, then the merge. The value is the transcript that
  is written to \<open>full_transcript.json\<close>.
\<close>

definition process_audio :: "whisper_response option list \<Rightarrow> int \<Rightarrow> py_error + merged_transcript" where
  "process_audio outcomes segment_duration =
     (let transcripts = transcribe_all_segments outcomes
      in if transcripts = [] then Inl NoSegmentsTranscribed
         else Inr (merge_transcripts transcripts segment_duration))"

section \<open>Reference definitions for the timeline properties\<close>

text \<open>
  The placements that keep a non-empty interval, with the interval each one is assigned:
  \<open>start = max(timestamp, cursor)\<close>, \<open>end = min(start + duration, total)\<close>; a placement
  with \<open>end \<le> start\<close> is left out and does not move the cursor.
\<close>

fun placed :: "real \<Rightarrow> real \<Rightarrow> content list \<Rightarrow> (content \<times> real \<times> real) list" where
  "placed td cursor [] = []"
| "placed td cursor (c # cs) =
     (let s = max (timestamp c) cursor; e = min (s + c_duration c) td
      in if e \<le> s then placed td cursor cs else (c, s, e) # placed td e cs)"

definition entry_of :: "content \<times> real \<times> real \<Rightarrow> segment" where
  "entry_of x = (case x of (c, s, e) \<Rightarrow> make_segment c s e)"

text \<open>
  Gap closing as the specification words it: a gap before an entry, and the rest up to
  the total duration, is covered by a copy of the previous real entry with new times, or
  by a background entry when there is no previous entry.
\<close>

definition filler :: "segment option \<Rightarrow> real \<Rightarrow> real \<Rightarrow> segment" where
  "filler prev s e =
     (case prev of
        None \<Rightarrow> background_segment s e
      | Some p \<Rightarrow> p\<lparr>start_time := s, end_time := e, duration := e - s\<rparr>)"

fun close_gaps :: "segment option \<Rightarrow> real \<Rightarrow> segment list \<Rightarrow> real \<Rightarrow> segment list" where
  "close_gaps prev cursor [] td = (if cursor < td then [filler prev cursor td] else [])"
| "close_gaps prev cursor (x # xs) td =
     (if cursor < start_time x then [filler prev cursor (start_time x)] else [])
       @ x # close_gaps (Some x) (end_time x) xs td"

text \<open>
  The same pass without its last step, and the cursor it ends with; \<open>last_opt\<close> reads
  the previous entry off the list built so far.
\<close>

fun gaps_body :: "segment option \<Rightarrow> real \<Rightarrow> segment list \<Rightarrow> segment list" where
  "gaps_body prev cursor [] = []"
| "gaps_body prev cursor (x # xs) =
     (if cursor < start_time x then [filler prev cursor (start_time x)] else [])
       @ x # gaps_body (Some x) (end_time x) xs"

fun final_cursor :: "real \<Rightarrow> segment list \<Rightarrow> real" where
  "final_cursor cur [] = cur"
| "final_cursor cur (x # xs) = final_cursor (end_time x) xs"

definition last_opt :: "'a list \<Rightarrow> 'a option" where
  "last_opt xs = (if xs = [] then None else Some (last xs))"

text \<open>
  Shapes of a timeline: entries that follow a cursor without overlap; entries that start
  at the cursor, touch each other and end at the total duration; contiguity; an exact
  cover of the interval from 0 to the total duration.
\<close>

fun ordered_from :: "real \<Rightarrow> segment list \<Rightarrow> bool" where
  "ordered_from cur [] = True"
| "ordered_from cur (x # xs) =
     (cur \<le> start_time x \<and> start_time x < end_time x \<and> ordered_from (end_time x) xs)"

fun chain :: "real \<Rightarrow> segment list \<Rightarrow> real \<Rightarrow> bool" where
  "chain cur [] td = (cur = td)"
| "chain cur (x # xs) td =
     (start_time x = cur \<and> start_time x < end_time x \<and> chain (end_time x) xs td)"

fun contiguous :: "segment list \<Rightarrow> bool" where
  "contiguous [] = True"
| "contiguous [x] = True"
| "contiguous (x # y # ys) = (end_time x = start_time y \<and> contiguous (y # ys))"

definition covers :: "segment list \<Rightarrow> real \<Rightarrow> bool" where
  "covers tml td =
     (tml \<noteq> [] \<and> start_time (hd tml) = 0 \<and> end_time (last tml) = td \<and> contiguous tml \<and>
      sorted_wrt (\<lambda>a b. end_time a \<le> start_time b) tml)"

text \<open>
  An entry of positive width whose \<open>duration\<close> field is that width; two entries that show
  the same content.
\<close>

definition positive :: "segment \<Rightarrow> bool" where
  "positive x = (start_time x < end_time x \<and> duration x = end_time x - start_time x)"

definition same_source :: "segment \<Rightarrow> segment \<Rightarrow> bool" where
  "same_source x y =
     (seg_type x = seg_type y \<and> path x = path y \<and> description x = description y \<and>
      relevance_score x = relevance_score y)"

section \<open>Reference inputs\<close>

text \<open>
  The scenario of two images at 0 and 12 seconds in a recording of 20 seconds, an image
  placed after the end of the recording, two images with the same timestamp, a video
  record with only its path, two chunk transcripts for a chunk duration of 600 seconds,
  and job directories without a manifest.
\<close>

definition image_record :: "string \<Rightarrow> real \<Rightarrow> raw_record" where
  "image_record p t =
     \<lparr>r_path = Some p, r_timestamp = Some t, r_relevance_score = None, r_description = None\<rparr>"

definition image_item :: "string \<Rightarrow> real \<Rightarrow> content" where
  "image_item p t =
     \<lparr>c_type = ImageType, c_path = p, timestamp = t, c_relevance_score = 0.5,
      c_description = [], c_duration = 5\<rparr>"

definition image_segment :: "string \<Rightarrow> real \<Rightarrow> real \<Rightarrow> segment" where
  "image_segment p s e =
     \<lparr>seg_type = ImageType, path = Some p, start_time = s, end_time = e, duration = e - s,
      description = [], relevance_score = 0.5\<rparr>"

definition two_images :: visual_content where
  "two_images = \<lparr>images = Some [image_record ''a.jpg'' 0, image_record ''b.jpg'' 12],
                  videos = Some []\<rparr>"

definition late_image :: visual_content where
  "late_image = \<lparr>images = Some [image_record ''late.jpg'' 30], videos = Some []\<rparr>"

definition one_late :: visual_content where
  "one_late = \<lparr>images = Some [image_record ''a.jpg'' 0, image_record ''late.jpg'' 30],
                videos = Some []\<rparr>"

definition tied_images :: visual_content where
  "tied_images = \<lparr>images = Some [image_record ''a.jpg'' 3, image_record ''b.jpg'' 3],
                   videos = Some []\<rparr>"

definition bare_video :: raw_record where
  "bare_video = \<lparr>r_path = Some ''clip.mp4'', r_timestamp = None, r_relevance_score = None,
                  r_description = None\<rparr>"

definition mixed_manifest :: visual_content where
  "mixed_manifest = \<lparr>images = Some [image_record ''a.jpg'' 7], videos = Some [bare_video]\<rparr>"

definition chunk0 :: segment_transcript where
  "chunk0 = \<lparr>segment_index = 0, t_text = ''hello'', language = ''fr'', t_duration = 600,
              segments = [\<lparr>seg_start = 5, seg_end = 8, seg_text = ''hello''\<rparr>]\<rparr>"

definition chunk1 :: segment_transcript where
  "chunk1 = \<lparr>segment_index = 1, t_text = ''world'', language = ''en'', t_duration = 300,
              segments = [\<lparr>seg_start = 2, seg_end = 4, seg_text = ''world''\<rparr>]\<rparr>"

definition reply1 :: whisper_response where
  "reply1 = \<lparr>w_text = ''world'', w_language = ''en'', w_duration = 300,
              w_segments = [\<lparr>seg_start = 2, seg_end = 4, seg_text = ''world''\<rparr>]\<rparr>"

definition no_render :: "segment list \<Rightarrow> string \<Rightarrow> py_error + nat" where
  "no_render timeline audio_file = Inr 0"

definition fresh_job :: job_dir where
  "fresh_job = \<lparr>transcript_file = None, manifest_file = None, audio_files = [''episode.mp3'']\<rparr>"

definition transcribed_job :: job_dir where
  "transcribed_job =
     \<lparr>transcript_file = Some (Some 20), manifest_file = None, audio_files = [''episode.mp3'']\<rparr>"

section \<open>The loops and their recursive descriptions\<close>

lemma timeline_loop_placed:
  "timeline_loop td cs tml cur = tml @ map entry_of (placed td cur cs)"
  by (induction cs arbitrary: tml cur) (auto simp: Let_def entry_of_def)

lemma extend_last_filler: "filled \<noteq> [] \<Longrightarrow> extend_last filled s e = filler (last_opt filled) s e"
  by (simp add: extend_last_def filler_def last_opt_def)

lemma fill_loop_gaps:
  "fill_loop segs filled cur = (filled @ gaps_body (last_opt filled) cur segs, final_cursor cur segs)"
proof (induction segs arbitrary: filled cur)
  case Nil
  then show ?case by simp
next
  case (Cons x xs)
  show ?case
    by (simp add: Cons.IH Let_def extend_last_filler) (simp add: last_opt_def filler_def)
qed

lemma close_gaps_body:
  "close_gaps prev cur segs td =
     gaps_body prev cur segs @
       (if final_cursor cur segs < td
        then [filler (if segs = [] then prev else Some (last segs)) (final_cursor cur segs) td]
        else [])"
  by (induction segs arbitrary: prev cur) auto

lemma gaps_body_nonempty: "segs \<noteq> [] \<Longrightarrow> gaps_body prev cur segs \<noteq> []"
  by (cases segs) auto

lemma last_gaps_body: "segs \<noteq> [] \<Longrightarrow> last (gaps_body prev cur segs) = last segs"
  by (induction segs arbitrary: prev cur) (auto simp: gaps_body_nonempty)

lemma fill_refines:
  "timeline \<noteq> [] \<Longrightarrow> fill_timeline_gaps timeline td = close_gaps None 0 timeline td"
  by (simp add: fill_timeline_gaps_def fill_loop_gaps close_gaps_body gaps_body_nonempty
      extend_last_def filler_def last_gaps_body last_opt_def)

lemma build_timeline_placed:
  "build_timeline contents td =
     fill_timeline_gaps (map entry_of (placed td 0 (sort_key timestamp contents))) td"
  by (simp add: build_timeline_def timeline_loop_placed)

lemma entry_of_times [simp]:
  "start_time (entry_of (c, s, e)) = s" "end_time (entry_of (c, s, e)) = e"
  "duration (entry_of (c, s, e)) = e - s"
  by (simp_all add: entry_of_def make_segment_def)

lemma filler_times [simp]:
  "start_time (filler p s e) = s" "end_time (filler p s e) = e" "duration (filler p s e) = e - s"
  by (simp_all add: filler_def background_segment_def split: option.splits)

section \<open>Normalisation\<close>

lemma append_all_sound:
  "append_all f rs acc = Inr cs \<Longrightarrow>
     \<exists>ds. cs = acc @ ds \<and> length ds = length rs \<and> (\<forall>d \<in> set ds. \<exists>r \<in> set rs. f r = Inr d)"
proof (induction rs arbitrary: acc)
  case Nil
  then show ?case by simp
next
  case (Cons r rs)
  then obtain c where c: "f r = Inr c" and rest: "append_all f rs (acc @ [c]) = Inr cs"
    by (auto split: sum.splits)
  from Cons.IH [OF rest] obtain ds where
    "cs = (acc @ [c]) @ ds" "length ds = length rs" "\<forall>d \<in> set ds. \<exists>r \<in> set rs. f r = Inr d"
    by blast
  with c show ?case
    by (intro exI [of _ "c # ds"]) auto
qed

lemma append_all_ok:
  "\<forall>r \<in> set rs. f r = Inr (g r) \<Longrightarrow> append_all f rs acc = Inr (acc @ map g rs)"
  by (induction rs arbitrary: acc) auto

lemma image_content_duration: "image_content r = Inr c \<Longrightarrow> 0 < c_duration c"
  by (auto simp: image_content_def default_image_duration_def split: option.splits)

lemma video_content_duration: "video_content r = Inr c \<Longrightarrow> 0 < c_duration c"
  by (auto simp: video_content_def split: option.splits)

lemma all_content_duration:
  assumes "all_content vc = Inr cs" "c \<in> set cs"
  shows "0 < c_duration c"
proof -
  from assms(1) obtain acc where
    a: "append_all image_content (get_or (images vc) []) [] = Inr acc" and
    b: "append_all video_content (get_or (videos vc) []) acc = Inr cs"
    by (auto simp: all_content_def split: sum.splits)
  from append_all_sound [OF a] have
    1: "\<forall>d \<in> set acc. \<exists>r. image_content r = Inr d" by auto
  from append_all_sound [OF b] obtain ds where
    2: "cs = acc @ ds" "\<forall>d \<in> set ds. \<exists>r. video_content r = Inr d" by blast
  from assms(2) 1 2 show ?thesis
    by (auto dest: image_content_duration video_content_duration)
qed

text \<open>
  Claim C7. Normalisation is a projection: when every record carries the \<open>path\<close> key,
  each image record becomes one placement of type image with duration 5, each video
  record one placement of type video with duration 3, images first and in input order;
  a missing timestamp becomes 0, a missing relevance 0.5 for an image and 0.8 for a
  video, a missing description the empty string; the path and every value that is
  present are copied, and no record is left out.
\<close>

theorem normalisation_projection:
  assumes "imgs = get_or (images vc) []" and "vids = get_or (videos vc) []"
    and "\<forall>r \<in> set imgs \<union> set vids. r_path r \<noteq> None"
  shows "all_content vc =
     Inr (map (\<lambda>r. \<lparr>c_type = ImageType, c_path = the (r_path r),
                     timestamp = (case r_timestamp r of None \<Rightarrow> 0 | Some t \<Rightarrow> t),
                     c_relevance_score = (case r_relevance_score r of None \<Rightarrow> 0.5 | Some v \<Rightarrow> v),
                     c_description = (case r_description r of None \<Rightarrow> [] | Some d \<Rightarrow> d),
                     c_duration = 5\<rparr>) imgs @
          map (\<lambda>r. \<lparr>c_type = VideoType, c_path = the (r_path r),
                     timestamp = (case r_timestamp r of None \<Rightarrow> 0 | Some t \<Rightarrow> t),
                     c_relevance_score = (case r_relevance_score r of None \<Rightarrow> 0.8 | Some v \<Rightarrow> v),
                     c_description = (case r_description r of None \<Rightarrow> [] | Some d \<Rightarrow> d),
                     c_duration = 3\<rparr>) vids)"
    (is "_ = Inr (map ?img imgs @ map ?vid vids)")
proof -
  have "\<forall>r \<in> set imgs. image_content r = Inr (?img r)"
  proof
    fix r assume "r \<in> set imgs"
    with assms(3) obtain p where "r_path r = Some p" by auto
    then show "image_content r = Inr (?img r)"
      by (simp add: image_content_def get_or_def default_image_duration_def split: option.split)
  qed
  then have 1: "append_all image_content imgs [] = Inr (map ?img imgs)"
    using append_all_ok [of imgs image_content ?img "[]"] by simp
  have "\<forall>r \<in> set vids. video_content r = Inr (?vid r)"
  proof
    fix r assume "r \<in> set vids"
    with assms(3) obtain p where "r_path r = Some p" by auto
    then show "video_content r = Inr (?vid r)"
      by (simp add: video_content_def get_or_def split: option.split)
  qed
  then have 2: "append_all video_content vids (map ?img imgs) = Inr (map ?img imgs @ map ?vid vids)"
    by (rule append_all_ok)
  show ?thesis
    using 1 2 by (simp add: all_content_def flip: assms(1,2))
qed

text \<open>
  The theorem on a manifest with one image and one video record that has only a path.
\<close>

theorem normalisation_projection_witness:
  "all_content mixed_manifest =
     Inr [\<lparr>c_type = ImageType, c_path = ''a.jpg'', timestamp = 7, c_relevance_score = 0.5,
           c_description = [], c_duration = 5\<rparr>,
          \<lparr>c_type = VideoType, c_path = ''clip.mp4'', timestamp = 0, c_relevance_score = 0.8,
           c_description = [], c_duration = 3\<rparr>]"
proof -
  have 1: "[image_record ''a.jpg'' 7] = get_or (images mixed_manifest) []"
    by (simp add: mixed_manifest_def get_or_def)
  have 2: "[bare_video] = get_or (videos mixed_manifest) []"
    by (simp add: mixed_manifest_def get_or_def)
  have 3: "\<forall>r \<in> set [image_record ''a.jpg'' 7] \<union> set [bare_video]. r_path r \<noteq> None"
    by (simp add: image_record_def bare_video_def)
  from normalisation_projection [OF 1 2 3]
  show ?thesis by (simp add: image_record_def bare_video_def)
qed

section \<open>Coverage of the timeline\<close>

lemma placed_ordered: "ordered_from cur (map entry_of (placed td cur cs))"
  by (induction cs arbitrary: cur) (auto simp: Let_def)

lemma placed_bounded: "x \<in> set (placed td cur cs) \<Longrightarrow> end_time (entry_of x) \<le> td"
  by (induction cs arbitrary: cur) (auto simp: Let_def split: if_splits)

lemma placed_duration: "x \<in> set (placed td cur cs) \<Longrightarrow> duration (entry_of x) = end_time (entry_of x) - start_time (entry_of x)"
  by (cases x) simp

lemma close_gaps_chain:
  "ordered_from cur segs \<Longrightarrow> \<forall>x \<in> set segs. end_time x \<le> td \<Longrightarrow> cur \<le> td
     \<Longrightarrow> chain cur (close_gaps prev cur segs td) td"
proof (induction segs arbitrary: prev cur)
  case Nil
  then show ?case by auto
next
  case (Cons x xs)
  have "chain (end_time x) (close_gaps (Some x) (end_time x) xs td) td"
    using Cons.prems by (intro Cons.IH) auto
  with Cons.prems show ?case by auto
qed

lemma chain_lower: "chain c xs td \<Longrightarrow> x \<in> set xs \<Longrightarrow> c \<le> start_time x \<and> start_time x < end_time x"
proof (induction xs arbitrary: c)
  case Nil
  then show ?case by simp
next
  case (Cons y ys)
  then show ?case by fastforce
qed

lemma chain_contiguous: "chain c xs td \<Longrightarrow> contiguous xs"
  by (induction xs arbitrary: c rule: contiguous.induct) auto

lemma chain_last: "chain c xs td \<Longrightarrow> xs \<noteq> [] \<Longrightarrow> end_time (last xs) = td"
  by (induction xs arbitrary: c) auto

lemma chain_disjoint: "chain c xs td \<Longrightarrow> sorted_wrt (\<lambda>a b. end_time a \<le> start_time b) xs"
proof (induction xs arbitrary: c)
  case Nil
  then show ?case by simp
next
  case (Cons y ys)
  have "\<forall>b \<in> set ys. end_time y \<le> start_time b"
    using Cons.prems chain_lower [of "end_time y" ys td] by auto
  with Cons show ?case by auto
qed

lemma chain_hd: "chain c xs td \<Longrightarrow> xs \<noteq> [] \<Longrightarrow> start_time (hd xs) = c"
  by (cases xs) auto

lemma chain_covers: "chain 0 xs td \<Longrightarrow> xs \<noteq> [] \<Longrightarrow> covers xs td"
  unfolding covers_def
  using chain_hd [of 0 xs td] chain_last [of 0 xs td] chain_contiguous [of 0 xs td]
    chain_disjoint [of 0 xs td]
  by simp

lemma close_gaps_nonempty: "segs \<noteq> [] \<Longrightarrow> close_gaps prev cur segs td \<noteq> []"
  by (cases segs) auto

lemma placed_first:
  assumes "cs \<noteq> []" "sorted (map timestamp cs)" "0 < td" "\<exists>c \<in> set cs. timestamp c < td"
    "\<forall>c \<in> set cs. 0 < c_duration c"
  shows "placed td 0 cs \<noteq> []"
proof (cases cs)
  case Nil
  with assms show ?thesis by simp
next
  case (Cons c rest)
  from assms Cons have "timestamp c < td" by auto
  moreover from assms Cons have "0 < c_duration c" by simp
  ultimately show ?thesis using Cons \<open>0 < td\<close> by (auto simp: Let_def)
qed

lemma fill_covers:
  assumes "segs \<noteq> []" "ordered_from 0 segs" "\<forall>x \<in> set segs. end_time x \<le> td" "0 \<le> td"
  shows "covers (fill_timeline_gaps segs td) td"
proof -
  have "chain 0 (close_gaps None 0 segs td) td"
    using assms by (intro close_gaps_chain) auto
  then show ?thesis
    using assms(1) by (simp add: fill_refines chain_covers close_gaps_nonempty)
qed

lemma two_images_content:
  "all_content two_images =
     Inr [\<lparr>c_type = ImageType, c_path = ''a.jpg'', timestamp = 0, c_relevance_score = 0.5,
           c_description = [], c_duration = 5\<rparr>,
          \<lparr>c_type = ImageType, c_path = ''b.jpg'', timestamp = 12, c_relevance_score = 0.5,
           c_description = [], c_duration = 5\<rparr>]"
  by (simp add: all_content_def two_images_def image_record_def image_content_def get_or_def
      default_image_duration_def)

lemma two_images_timeline:
  "create_timeline two_images (Some 20) =
     Inr [\<lparr>seg_type = ImageType, path = Some ''a.jpg'', start_time = 0, end_time = 5, duration = 5,
           description = [], relevance_score = 0.5\<rparr>,
          \<lparr>seg_type = ImageType, path = Some ''a.jpg'', start_time = 5, end_time = 12, duration = 7,
           description = [], relevance_score = 0.5\<rparr>,
          \<lparr>seg_type = ImageType, path = Some ''b.jpg'', start_time = 12, end_time = 17, duration = 5,
           description = [], relevance_score = 0.5\<rparr>,
          \<lparr>seg_type = ImageType, path = Some ''b.jpg'', start_time = 17, end_time = 20, duration = 3,
           description = [], relevance_score = 0.5\<rparr>]"
  by (simp add: create_timeline_def two_images_content build_timeline_def get_or_def
      make_segment_def fill_timeline_gaps_def extend_last_def Let_def)

lemma late_image_content:
  "all_content late_image =
     Inr [\<lparr>c_type = ImageType, c_path = ''late.jpg'', timestamp = 30, c_relevance_score = 0.5,
           c_description = [], c_duration = 5\<rparr>]"
  by (simp add: all_content_def late_image_def image_record_def image_content_def get_or_def
      default_image_duration_def)

text \<open>
  Claim C1, as amended. When the total duration is positive and at least one placement
  has its timestamp before the total duration, \<open>create_timeline\<close> returns a timeline that
  partitions the interval from 0 to the total duration: it is not empty, its first entry
  starts at 0, its last entry ends at the total duration, each entry ends where the next
  one starts, and no two entries overlap.
\<close>

theorem timeline_covers:
  assumes "all_content vc = Inr contents" "0 < td" "\<exists>c \<in> set contents. timestamp c < td"
  shows "\<exists>tml. create_timeline vc (Some td) = Inr tml \<and> covers tml td"
proof -
  let ?sorted = "sort_key timestamp contents"
  let ?kept = "placed td 0 ?sorted"
  have "?sorted \<noteq> []"
    using assms(3) by (metis empty_iff list.set(1) set_sort)
  moreover have "\<forall>c \<in> set ?sorted. 0 < c_duration c"
    using all_content_duration [OF assms(1)] by simp
  ultimately have kept: "?kept \<noteq> []"
    using assms(2,3) by (intro placed_first) auto
  have "covers (fill_timeline_gaps (map entry_of ?kept) td) td"
    using kept assms(2) placed_ordered [of 0 td ?sorted]
    by (intro fill_covers) (auto dest: placed_bounded)
  then show ?thesis
    using assms(1) by (simp add: create_timeline_def get_or_def build_timeline_placed)
qed

text \<open>
  The theorem on the two images at 0 and 12 seconds with a total duration of 20.
\<close>

theorem timeline_covers_witness:
  "(0::real) < 20 \<and> (\<exists>tml. create_timeline two_images (Some 20) = Inr tml \<and> covers tml 20)"
  using timeline_covers [OF two_images_content, of 20] by simp

text \<open>
  The claim as stated fails: a single image placed at 30 seconds is a non-empty list of
  placements, the total duration 20 is positive, and the timeline returned is empty.
\<close>

theorem timeline_covers_counterexample:
  "all_content late_image =
     Inr [\<lparr>c_type = ImageType, c_path = ''late.jpg'', timestamp = 30, c_relevance_score = 0.5,
           c_description = [], c_duration = 5\<rparr>] \<and>
   (0::real) < 20 \<and>
   create_timeline late_image (Some 20) = Inr [] \<and> \<not> covers [] 20"
  by (simp add: late_image_content create_timeline_def build_timeline_def get_or_def
      fill_timeline_gaps_def covers_def Let_def)

section \<open>The gap-closing pass\<close>

text \<open>
  Claim C2, as amended. On a timeline with at least one entry, \<open>fill_timeline_gaps\<close> is
  the gap closing of the specification: every gap before an entry is covered by a copy
  of the previous real entry with the times of the gap, or by a background entry without
  a path when there is no previous entry, and a cursor still below the total duration is
  closed by one copy of the last real entry that ends at the total duration. A timeline
  without entries is returned as it is.
\<close>

theorem gap_filling_refines:
  "fill_timeline_gaps [] td = [] \<and>
   (timeline \<noteq> [] \<longrightarrow> fill_timeline_gaps timeline td = close_gaps None 0 timeline td)"
  by (simp add: fill_refines) (simp add: fill_timeline_gaps_def)

text \<open>
  The theorem on one image from 8 to 10 seconds with a total duration of 12.
\<close>

theorem gap_filling_refines_witness:
  "[image_segment ''a.jpg'' 8 10] \<noteq> [] \<and>
   fill_timeline_gaps [image_segment ''a.jpg'' 8 10] 12 =
     [background_segment 0 8, image_segment ''a.jpg'' 8 10, image_segment ''a.jpg'' 10 12]"
  using gap_filling_refines [of 12 "[image_segment ''a.jpg'' 8 10]"]
  by (simp add: image_segment_def filler_def)

text \<open>
  The claim as stated fails on the empty timeline: the specification appends a trailing
  background entry up to the total duration, the code returns the empty list.
\<close>

theorem gap_filling_counterexample:
  "fill_timeline_gaps [] 20 = [] \<and> close_gaps None 0 [] 20 = [background_segment 0 20]"
  by (simp add: fill_timeline_gaps_def filler_def)

section \<open>Positive durations\<close>

lemma positive_filler: "s < e \<Longrightarrow> positive (filler p s e)"
  by (simp add: positive_def)

lemma close_gaps_valid:
  "\<forall>x \<in> set segs. positive x \<Longrightarrow> y \<in> set (close_gaps prev cur segs td) \<Longrightarrow> positive y"
proof (induction segs arbitrary: prev cur)
  case Nil
  then show ?case by (cases "cur < td") (simp_all add: positive_filler)
next
  case (Cons x xs)
  from Cons.prems(2) consider
    "cur < start_time x" "y = filler prev cur (start_time x)" | "y = x"
    | "y \<in> set (close_gaps (Some x) (end_time x) xs td)"
    by (cases "cur < start_time x") auto
  then show ?case
  proof cases
    case 1
    then show ?thesis by (simp add: positive_filler)
  next
    case 2
    with Cons.prems(1) show ?thesis by simp
  next
    case 3
    with Cons.IH [of "Some x" "end_time x"] Cons.prems(1) show ?thesis by simp
  qed
qed

lemma placed_valid: "x \<in> set (placed td cur cs) \<Longrightarrow> positive (entry_of x)"
proof (induction cs arbitrary: cur)
  case Nil
  then show ?case by simp
next
  case (Cons c cs)
  then show ?case
    by (cases "min (max (timestamp c) cur + c_duration c) td \<le> max (timestamp c) cur")
      (auto simp: Let_def positive_def)
qed

lemma fill_valid:
  assumes "\<forall>x \<in> set segs. positive x" "y \<in> set (fill_timeline_gaps segs td)"
  shows "positive y"
proof (cases "segs = []")
  case True
  with assms(2) show ?thesis by (simp add: fill_timeline_gaps_def)
next
  case False
  with assms close_gaps_valid [of segs y None 0 td] show ?thesis by (simp add: fill_refines)
qed

text \<open>
  Claim C9. Every entry of a timeline returned by \<open>create_timeline\<close> ends strictly
  after it starts, and its \<open>duration\<close> field is the difference of the two.
\<close>

theorem timeline_positive_duration:
  assumes "create_timeline vc transcript_total = Inr tml" "x \<in> set tml"
  shows "start_time x < end_time x \<and> duration x = end_time x - start_time x"
proof -
  from assms(1) obtain contents where
    tml: "tml = build_timeline contents (get_or transcript_total 0)"
    by (auto simp: create_timeline_def Let_def split: sum.splits)
  let ?kept = "placed (get_or transcript_total 0) 0 (sort_key timestamp contents)"
  have "\<forall>y \<in> set (map entry_of ?kept). positive y"
    by (simp add: placed_valid)
  then have "positive x"
    using assms(2) unfolding tml build_timeline_placed by (rule fill_valid)
  then show ?thesis by (simp add: positive_def)
qed

text \<open>
  The theorem on the filler between the two images of the reference scenario.
\<close>

theorem timeline_positive_duration_witness:
  "create_timeline two_images (Some 20) =
     Inr [image_segment ''a.jpg'' 0 5, image_segment ''a.jpg'' 5 12,
          image_segment ''b.jpg'' 12 17, image_segment ''b.jpg'' 17 20] \<and>
   start_time (image_segment ''a.jpg'' 5 12) < end_time (image_segment ''a.jpg'' 5 12) \<and>
   duration (image_segment ''a.jpg'' 5 12) =
     end_time (image_segment ''a.jpg'' 5 12) - start_time (image_segment ''a.jpg'' 5 12)"
proof -
  have run: "create_timeline two_images (Some 20) =
     Inr [image_segment ''a.jpg'' 0 5, image_segment ''a.jpg'' 5 12,
          image_segment ''b.jpg'' 12 17, image_segment ''b.jpg'' 17 20]"
    by (simp add: two_images_timeline image_segment_def)
  have "image_segment ''a.jpg'' 5 12 \<in> set [image_segment ''a.jpg'' 0 5, image_segment ''a.jpg'' 5 12,
          image_segment ''b.jpg'' 12 17, image_segment ''b.jpg'' 17 20]"
    by simp
  from timeline_positive_duration [OF run this] run show ?thesis by blast
qed

section \<open>The drop policy\<close>

lemma placed_subseq: "subseq (map fst (placed td cur cs)) cs"
  by (induction cs arbitrary: cur) (auto simp: Let_def)

lemma close_gaps_subseq: "subseq segs (close_gaps prev cur segs td)"
  by (induction segs arbitrary: prev cur) auto

lemma same_source_filler: "same_source (filler (Some p) s e) p"
  by (simp add: same_source_def filler_def)

lemma same_source_refl: "same_source x x"
  by (simp add: same_source_def)

lemma close_gaps_sources:
  "y \<in> set (close_gaps prev cur segs td) \<Longrightarrow>
     (prev = None \<and> seg_type y = BackgroundType) \<or>
     (\<exists>x \<in> set segs \<union> set_option prev. same_source y x)"
proof (induction segs arbitrary: prev cur)
  case Nil
  then show ?case
    by (cases prev; cases "cur < td")
      (auto simp: same_source_filler, simp add: filler_def background_segment_def)
next
  case (Cons x xs)
  from Cons.prems consider
    "y = filler prev cur (start_time x)" | "y = x"
    | "y \<in> set (close_gaps (Some x) (end_time x) xs td)"
    by (cases "cur < start_time x") auto
  then show ?case
  proof cases
    case 1
    then show ?thesis
      by (cases prev) (auto simp: same_source_filler, simp add: filler_def background_segment_def)
  next
    case 2
    then show ?thesis by (auto simp: same_source_refl)
  next
    case 3
    from Cons.IH [OF 3] show ?thesis by auto
  qed
qed

lemma fill_sources:
  assumes "y \<in> set (fill_timeline_gaps segs td)"
  shows "seg_type y = BackgroundType \<or> (\<exists>x \<in> set segs. same_source y x)"
proof (cases "segs = []")
  case True
  with assms show ?thesis by (simp add: fill_timeline_gaps_def)
next
  case False
  with assms close_gaps_sources [of y None 0 segs td] show ?thesis
    by (auto simp: fill_refines)
qed

lemma fill_subseq: "subseq segs (fill_timeline_gaps segs td)"
proof (cases "segs = []")
  case True
  then show ?thesis by (simp add: fill_timeline_gaps_def)
next
  case False
  then show ?thesis by (simp add: fill_refines close_gaps_subseq)
qed

lemma one_late_content:
  "all_content one_late = Inr [image_item ''a.jpg'' 0, image_item ''late.jpg'' 30]"
  by (simp add: all_content_def one_late_def image_record_def image_content_def get_or_def
      default_image_duration_def image_item_def)

lemma one_late_placed:
  "[(image_item ''a.jpg'' 0, 0, 5)] =
     placed 20 0 (sort_key timestamp [image_item ''a.jpg'' 0, image_item ''late.jpg'' 30])"
  by (simp add: image_item_def Let_def)

text \<open>
  Claim C3. The timeline before gap filling consists of exactly the placements whose
  assigned interval is not empty, each with its interval, in the order of the sorted
  placements; a placement with an empty interval adds no entry. These entries appear in
  the same order in the timeline that is returned, and every other entry returned is a
  background entry or shows the content of one of the placements that were kept.
\<close>

theorem drop_policy:
  assumes "all_content vc = Inr contents"
    and "kept = placed td 0 (sort_key timestamp contents)"
  shows "create_timeline vc (Some td) = Inr (fill_timeline_gaps (map entry_of kept) td) \<and>
         timeline_loop td (sort_key timestamp contents) [] 0 = map entry_of kept \<and>
         subseq (map fst kept) (sort_key timestamp contents) \<and>
         subseq (map entry_of kept) (fill_timeline_gaps (map entry_of kept) td) \<and>
         (\<forall>y \<in> set (fill_timeline_gaps (map entry_of kept) td).
            seg_type y = BackgroundType \<or> (\<exists>k \<in> set kept. same_source y (entry_of k)))"
proof -
  have "create_timeline vc (Some td) = Inr (fill_timeline_gaps (map entry_of kept) td)"
    using assms by (simp add: create_timeline_def get_or_def build_timeline_placed)
  moreover have "timeline_loop td (sort_key timestamp contents) [] 0 = map entry_of kept"
    using assms(2) by (simp add: timeline_loop_placed)
  moreover have "subseq (map fst kept) (sort_key timestamp contents)"
    unfolding assms(2) by (rule placed_subseq)
  moreover have "subseq (map entry_of kept) (fill_timeline_gaps (map entry_of kept) td)"
    by (rule fill_subseq)
  moreover have "\<forall>y \<in> set (fill_timeline_gaps (map entry_of kept) td).
            seg_type y = BackgroundType \<or> (\<exists>k \<in> set kept. same_source y (entry_of k))"
    using fill_sources [of _ "map entry_of kept" td] by auto
  ultimately show ?thesis by blast
qed

text \<open>
  The theorem on an image at 0 and an image at 30 seconds with a total duration of 20:
  the second image is dropped.
\<close>

theorem drop_policy_witness:
  "create_timeline one_late (Some 20) =
     Inr [image_segment ''a.jpg'' 0 5, image_segment ''a.jpg'' 5 20] \<and>
   timeline_loop 20 (sort_key timestamp [image_item ''a.jpg'' 0, image_item ''late.jpg'' 30]) [] 0 =
     [image_segment ''a.jpg'' 0 5]"
proof -
  have fill: "fill_timeline_gaps [entry_of (image_item ''a.jpg'' 0, 0, 5)] 20 =
                [image_segment ''a.jpg'' 0 5, image_segment ''a.jpg'' 5 20]"
    by (simp add: fill_timeline_gaps_def extend_last_def entry_of_def make_segment_def
        image_item_def image_segment_def)
  have entry: "entry_of (image_item ''a.jpg'' 0, 0, 5) = image_segment ''a.jpg'' 0 5"
    by (simp add: entry_of_def make_segment_def image_item_def image_segment_def)
  from drop_policy [OF one_late_content one_late_placed]
  show ?thesis by (simp add: fill) (simp add: entry)
qed

section \<open>Determinism under the stable sort\<close>

lemma tied_images_content:
  "all_content tied_images = Inr [image_item ''a.jpg'' 3, image_item ''b.jpg'' 3]"
  by (simp add: all_content_def tied_images_def image_record_def image_content_def get_or_def
      default_image_duration_def image_item_def)

text \<open>
  Claim C8. The timeline is a function of the placements and the total duration alone:
  whatever list a stable ascending sort by timestamp yields (a permutation of the
  placements, ascending in timestamp, with equal timestamps in input order), the loop
  and the gap filling on it give the timeline that \<open>create_timeline\<close> returns.
\<close>

theorem timeline_deterministic:
  assumes "all_content vc = Inr contents"
    and "mset ys = mset contents"
    and "sorted (map timestamp ys)"
    and "\<forall>k. filter (\<lambda>c. timestamp c = k) ys = filter (\<lambda>c. timestamp c = k) contents"
  shows "create_timeline vc transcript_total =
           Inr (fill_timeline_gaps
                  (timeline_loop (get_or transcript_total 0) ys [] 0) (get_or transcript_total 0))"
proof -
  have "sort_key timestamp contents = ys"
  proof (rule properties_for_sort_key)
    show "mset ys = mset contents" by (rule assms(2))
    show "sorted (map timestamp ys)" by (rule assms(3))
    show "filter (\<lambda>x. timestamp k = timestamp x) ys = filter (\<lambda>x. timestamp k = timestamp x) contents"
      for k
      using assms(4) by (simp add: eq_commute [of "timestamp k"])
  qed
  then show ?thesis
    using assms(1) by (simp add: create_timeline_def build_timeline_def Let_def)
qed

text \<open>
  The theorem on two images with the same timestamp: the first one in input order is
  placed first.
\<close>

theorem timeline_deterministic_witness:
  "create_timeline tied_images (Some 20) =
     Inr [background_segment 0 3, image_segment ''a.jpg'' 3 8, image_segment ''b.jpg'' 8 13,
          image_segment ''b.jpg'' 13 20]"
proof -
  let ?ys = "[image_item ''a.jpg'' 3, image_item ''b.jpg'' 3]"
  have 1: "mset ?ys = mset ?ys" by simp
  have 2: "sorted (map timestamp ?ys)" by (simp add: image_item_def)
  have 3: "\<forall>k. filter (\<lambda>c. timestamp c = k) ?ys = filter (\<lambda>c. timestamp c = k) ?ys" by simp
  have loop: "timeline_loop 20 ?ys [] 0 = [image_segment ''a.jpg'' 3 8, image_segment ''b.jpg'' 8 13]"
    by (simp add: image_item_def image_segment_def make_segment_def Let_def)
  have fill: "fill_timeline_gaps [image_segment ''a.jpg'' 3 8, image_segment ''b.jpg'' 8 13] 20 =
     [background_segment 0 3, image_segment ''a.jpg'' 3 8, image_segment ''b.jpg'' 8 13,
          image_segment ''b.jpg'' 13 20]"
    by (simp add: fill_timeline_gaps_def extend_last_def image_segment_def Let_def)
  have "get_or (Some (20::real)) 0 = 20" by (simp add: get_or_def)
  with timeline_deterministic [OF tied_images_content 1 2 3, of "Some 20"]
  show ?thesis by (simp only: loop fill)
qed

section \<open>Composition without a manifest\<close>

lemma compose_body_no_manifest:
  assumes "manifest_file job = None"
  shows "compose_body render job =
     ([StatusUpdate ''composing'' 95],
      Inl (case transcript_file job of
             None \<Rightarrow> TranscriptNotFound
           | Some t \<Rightarrow> (case audio_files job of [] \<Rightarrow> NoAudioFile | f # fs \<Rightarrow> NoVisualContent)))"
  using assms
  by (simp add: compose_body_def load_transcript_def load_visual_content_def get_audio_file_def
      falsy_def split: option.splits list.splits)

text \<open>
  Claim C10, as amended. When the manifest file is absent, \<open>load_visual_content\<close>
  returns the manifest with no image and no video, and \<open>compose_video\<close> fails before a
  timeline is created and before the encoder is invoked; the failure is the
  no-visual-content error whenever the transcript file and an audio file exist.
\<close>

theorem compose_without_manifest:
  assumes "manifest_file job = None"
  shows "load_visual_content job = \<lparr>images = Some [], videos = Some []\<rparr> \<and>
         (\<exists>e. snd (compose_video render job) = Inl e) \<and>
         TimelineCreated \<notin> set (fst (compose_video render job)) \<and>
         EncoderInvoked \<notin> set (fst (compose_video render job)) \<and>
         (transcript_file job \<noteq> None \<and> audio_files job \<noteq> [] \<longrightarrow>
            snd (compose_video render job) = Inl NoVisualContent)"
  using assms
  by (auto simp: compose_video_def compose_body_no_manifest load_visual_content_def
      split: option.splits list.splits)

text \<open>
  The theorem on a job directory with a transcript and an audio file.
\<close>

theorem compose_without_manifest_witness:
  "manifest_file transcribed_job = None \<and>
   compose_video no_render transcribed_job =
     ([StatusUpdate ''composing'' 95, StatusUpdate ''failed'' 0], Inl NoVisualContent)"
proof -
  have h: "manifest_file transcribed_job = None" by (simp add: transcribed_job_def)
  have "compose_body no_render transcribed_job =
          ([StatusUpdate ''composing'' 95], Inl NoVisualContent)"
    unfolding compose_body_no_manifest [OF h] by (simp add: transcribed_job_def)
  then have "fst (compose_video no_render transcribed_job) =
          [StatusUpdate ''composing'' 95, StatusUpdate ''failed'' 0]"
    by (simp add: compose_video_def)
  moreover have "snd (compose_video no_render transcribed_job) = Inl NoVisualContent"
    using compose_without_manifest [OF h, of no_render] by (simp add: transcribed_job_def)
  ultimately show ?thesis using h by (simp add: prod_eq_iff)
qed

text \<open>
  The claim as stated fails on a job directory that holds only the uploaded audio file:
  the error raised is the one of the missing transcript.
\<close>

theorem compose_without_manifest_counterexample:
  "manifest_file fresh_job = None \<and>
   compose_video no_render fresh_job =
     ([StatusUpdate ''composing'' 95, StatusUpdate ''failed'' 0], Inl TranscriptNotFound)"
  by (simp add: compose_video_def compose_body_def load_transcript_def fresh_job_def)

section \<open>The transcript merger\<close>

lemma add_segments_map: "add_segments b ss acc = acc @ map (merged_segment b) ss"
  by (induction ss arbitrary: acc) auto

lemma merge_step_fields:
  "m_segments (merge_step D m t) =
     m_segments m @ map (merged_segment (segment_index t * D)) (segments t)"
  "total_duration (merge_step D m t) =
     max (total_duration m) (real_of_int (segment_index t * D) + t_duration t)"
  "m_language (merge_step D m t) = m_language m"
  by (simp_all add: merge_step_def Let_def add_segments_map)

lemma merge_loop_segments:
  "m_segments (merge_loop D ts m) =
     m_segments m @ concat (map (\<lambda>t. map (merged_segment (segment_index t * D)) (segments t)) ts)"
  by (induction ts arbitrary: m) (simp_all add: merge_step_fields)

lemma merge_loop_language: "m_language (merge_loop D ts m) = m_language m"
  by (induction ts arbitrary: m) (simp_all add: merge_step_fields)

lemma merge_loop_total:
  "total_duration (merge_loop D ts m) =
     Max (insert (total_duration m)
            ((\<lambda>t. real_of_int (segment_index t * D) + t_duration t) ` set ts))"
proof (induction ts arbitrary: m)
  case Nil
  then show ?case by simp
next
  case (Cons t ts)
  let ?f = "\<lambda>t. real_of_int (segment_index t * D) + t_duration t"
  have "Max (insert (max (total_duration m) (?f t)) (?f ` set ts)) =
        Max (insert (total_duration m) (insert (?f t) (?f ` set ts)))"
    by (cases "?f ` set ts = {}") (simp_all add: max.assoc)
  then show ?case by (simp add: Cons.IH merge_step_fields)
qed

lemma shifted_sorted:
  "sorted (map seg_start ss) \<Longrightarrow> sorted (map seg_start (map (merged_segment b) ss))"
  by (induction ss) (auto simp: merged_segment_def)

lemma blocks_sorted:
  assumes "sorted_wrt (<) (map segment_index ts)"
    and "\<forall>t \<in> set ts. sorted (map seg_start (segments t))"
    and "\<forall>t \<in> set ts. \<forall>s \<in> set (segments t). 0 \<le> seg_start s \<and> seg_start s \<le> real_of_int D"
  shows "sorted (map seg_start
           (concat (map (\<lambda>t. map (merged_segment (segment_index t * D)) (segments t)) ts)))"
  using assms
proof (induction ts)
  case Nil
  then show ?case by simp
next
  case (Cons t ts)
  let ?blk = "\<lambda>t. map (merged_segment (segment_index t * D)) (segments t)"
  have first: "sorted (map seg_start (?blk t))"
    using Cons.prems(2) by (intro shifted_sorted) simp
  have rest: "sorted (map seg_start (concat (map ?blk ts)))"
    using Cons.prems by (intro Cons.IH) auto
  have cross: "seg_start (merged_segment (segment_index t * D) s)
                 \<le> seg_start (merged_segment (segment_index u * D) r)"
    if "s \<in> set (segments t)" "u \<in> set ts" "r \<in> set (segments u)" for s u r
  proof -
    from that Cons.prems(3) have s: "seg_start s \<le> real_of_int D" and s0: "0 \<le> seg_start s"
      and r: "0 \<le> seg_start r" by auto
    from s s0 have D: "0 \<le> D" by linarith
    from that(2) Cons.prems(1) have "segment_index t + 1 \<le> segment_index u" by auto
    then have "(segment_index t + 1) * D \<le> segment_index u * D"
      using D by (rule mult_right_mono)
    then have "real_of_int (segment_index t * D) + real_of_int D \<le> real_of_int (segment_index u * D)"
      by (simp add: algebra_simps flip: of_int_add of_int_mult)
    with s r show ?thesis by (simp add: merged_segment_def)
  qed
  show ?case
    using first rest cross by (auto simp: sorted_append)
qed

lemma merge_transcripts_language:
  "m_language (merge_transcripts (t # ts) D) = language t"
  unfolding merge_transcripts_def merge_loop_language by simp

text \<open>
  Claim C4. Every segment of the merged transcript is a local segment with
  \<open>segment_index * D\<close> added to its start and to its end, in the order of the input; when
  the transcripts come in strictly ascending index order, the local segments of each are
  sorted by start and the local starts lie between 0 and \<open>D\<close>, the merged segments are
  sorted by start.
\<close>

theorem merged_segments_offset:
  assumes "sorted_wrt (<) (map segment_index ts)"
    and "\<forall>t \<in> set ts. sorted (map seg_start (segments t))"
    and "\<forall>t \<in> set ts. \<forall>s \<in> set (segments t). 0 \<le> seg_start s \<and> seg_start s \<le> real_of_int D"
  shows "m_segments (merge_transcripts ts D) =
           concat (map (\<lambda>t. map (\<lambda>s. \<lparr>seg_start = real_of_int (segment_index t * D) + seg_start s,
                                          seg_end = real_of_int (segment_index t * D) + seg_end s,
                                          seg_text = seg_text s\<rparr>) (segments t)) ts) \<and>
         sorted (map seg_start (m_segments (merge_transcripts ts D)))"
proof -
  have eq: "m_segments (merge_transcripts ts D) =
      concat (map (\<lambda>t. map (merged_segment (segment_index t * D)) (segments t)) ts)"
    by (simp add: merge_transcripts_def merge_loop_segments)
  have "merged_segment b = (\<lambda>s. \<lparr>seg_start = real_of_int b + seg_start s,
                                  seg_end = real_of_int b + seg_end s, seg_text = seg_text s\<rparr>)" for b
    by (rule ext) (simp add: merged_segment_def)
  then have "m_segments (merge_transcripts ts D) =
           concat (map (\<lambda>t. map (\<lambda>s. \<lparr>seg_start = real_of_int (segment_index t * D) + seg_start s,
                                          seg_end = real_of_int (segment_index t * D) + seg_end s,
                                          seg_text = seg_text s\<rparr>) (segments t)) ts)"
    using eq by simp
  moreover have "sorted (map seg_start (m_segments (merge_transcripts ts D)))"
    unfolding eq using assms by (rule blocks_sorted)
  ultimately show ?thesis by blast
qed

text \<open>
  The theorem on the two chunks of the reference scenario.
\<close>

theorem merged_segments_offset_witness:
  "m_segments (merge_transcripts [chunk0, chunk1] 600) =
     [\<lparr>seg_start = 5, seg_end = 8, seg_text = ''hello''\<rparr>,
      \<lparr>seg_start = 602, seg_end = 604, seg_text = ''world''\<rparr>] \<and>
   sorted (map seg_start (m_segments (merge_transcripts [chunk0, chunk1] 600)))"
proof -
  have 1: "sorted_wrt (<) (map segment_index [chunk0, chunk1])"
    by (simp add: chunk0_def chunk1_def)
  have 2: "\<forall>t \<in> set [chunk0, chunk1]. sorted (map seg_start (segments t))"
    by (simp add: chunk0_def chunk1_def)
  have 3: "\<forall>t \<in> set [chunk0, chunk1]. \<forall>s \<in> set (segments t).
             0 \<le> seg_start s \<and> seg_start s \<le> real_of_int 600"
    by (simp add: chunk0_def chunk1_def)
  from merged_segments_offset [OF 1 2 3]
  show ?thesis by (simp add: chunk0_def chunk1_def)
qed

text \<open>
  Claim C5. For a non-empty list of transcripts with non-negative indices and durations
  and a non-negative chunk duration \<open>D\<close>, the total duration of the merged transcript is
  the maximum of \<open>segment_index * D + duration\<close> over the transcripts.
\<close>

theorem merged_total_duration:
  assumes "ts \<noteq> []" and "0 \<le> D"
    and "\<forall>t \<in> set ts. 0 \<le> segment_index t \<and> 0 \<le> t_duration t"
  shows "total_duration (merge_transcripts ts D) =
           Max ((\<lambda>t. real_of_int (segment_index t * D) + t_duration t) ` set ts)"
proof -
  let ?f = "\<lambda>t. real_of_int (segment_index t * D) + t_duration t"
  have fin: "finite (?f ` set ts)" and ne: "?f ` set ts \<noteq> {}"
    using assms(1) by simp_all
  have "0 \<le> ?f (hd ts)"
    using assms by (cases ts) auto
  moreover have "?f (hd ts) \<le> Max (?f ` set ts)"
    using assms(1) by (intro Max_ge) auto
  ultimately have "0 \<le> Max (?f ` set ts)" by linarith
  then have "Max (insert 0 (?f ` set ts)) = Max (?f ` set ts)"
    using fin ne by (simp add: max_def)
  then show ?thesis
    by (simp add: merge_transcripts_def merge_loop_total)
qed

text \<open>
  The theorem on the two chunks: the total duration is 900, while the last merged
  segment ends at 604.
\<close>

theorem merged_total_duration_witness:
  "total_duration (merge_transcripts [chunk0, chunk1] 600) = 900 \<and>
   seg_end (last (m_segments (merge_transcripts [chunk0, chunk1] 600))) = 604"
proof -
  have 1: "[chunk0, chunk1] \<noteq> []" by simp
  have 2: "(0::int) \<le> 600" by simp
  have 3: "\<forall>t \<in> set [chunk0, chunk1]. 0 \<le> segment_index t \<and> 0 \<le> t_duration t"
    by (simp add: chunk0_def chunk1_def)
  have "seg_end (last (m_segments (merge_transcripts [chunk0, chunk1] 600))) = 604"
    by (simp add: merge_transcripts_def merge_step_def merged_segment_def chunk0_def chunk1_def)
  with merged_total_duration [OF 1 2 3]
  show ?thesis by (simp add: chunk0_def chunk1_def)
qed

text \<open>
  Claim C6. When no segment was transcribed, processing fails with the error that no
  segment was transcribed; when at least one was, it yields the merged transcript, whose
  language is the language of the first transcript.
\<close>

theorem merge_language_and_failure:
  "(transcribe_all_segments outcomes = [] \<longrightarrow>
      process_audio outcomes D = Inl NoSegmentsTranscribed) \<and>
   (\<forall>t ts. transcribe_all_segments outcomes = t # ts \<longrightarrow>
      process_audio outcomes D = Inr (merge_transcripts (t # ts) D) \<and>
      m_language (merge_transcripts (t # ts) D) = language t)"
  by (simp add: process_audio_def Let_def merge_transcripts_language)

text \<open>
  The theorem on two failed segments, and on a failed segment followed by a transcribed
  one.
\<close>

theorem merge_language_and_failure_witness:
  "process_audio [None, None] 600 = Inl NoSegmentsTranscribed \<and>
   process_audio [None, Some reply1] 600 = Inr (merge_transcripts [chunk1] 600) \<and>
   m_language (merge_transcripts [chunk1] 600) = ''en''"
proof -
  have a: "transcribe_all_segments [None, None] = []"
    by (simp add: transcribe_all_segments_def)
  have b: "transcribe_all_segments [None, Some reply1] = [chunk1]"
    by (simp add: transcribe_all_segments_def transcribe_segment_def reply1_def chunk1_def)
  from merge_language_and_failure [of "[None, None]" 600] a
  have "process_audio [None, None] 600 = Inl NoSegmentsTranscribed" by simp
  moreover from merge_language_and_failure [of "[None, Some reply1]" 600] b
  have "process_audio [None, Some reply1] 600 = Inr (merge_transcripts [chunk1] 600) \<and>
        m_language (merge_transcripts [chunk1] 600) = language chunk1" by simp
  ultimately show ?thesis by (simp add: chunk1_def)
qed

end
